theory Spec2Isabelle
  imports
    Main
    "HOL-Library.Char_ord"
    "HOL-Library.List_Lexorder"
    "HOL-Library.Product_Lexorder"
    "HOL-Library.Sublist"
begin

section \<open>Data of scan.go\<close>

text \<open>
  The Go structs \<^verbatim>\<open>port\<close>, \<^verbatim>\<open>result\<close> and \<^verbatim>\<open>scandata\<close>, and one row of the SQL table
  \<^verbatim>\<open>scan\<close> with its five columns. Go's \<^verbatim>\<open>int\<close> is only stored and compared, never
  computed with, so it is an \<open>int\<close>.
\<close>

record service =
  Name :: string
  Banner :: string

record port =
  Port :: int
  Proto :: string
  Status :: string
  Service :: service

record result =
  IP :: string
  Ports :: "port list"

record row =
  ip :: string
  port :: int
  proto :: string
  firstseen :: string
  lastseen :: string

record scandata =
  IP :: string
  Port :: int
  Proto :: string
  FirstSeen :: string
  LastSeen :: string
  New :: bool

text \<open>The identity tuple \<open>(ip, port, proto)\<close> of the three \<^verbatim>\<open>WHERE ip=? AND port=? AND proto=?\<close> statements.\<close>

type_synonym ident = "string \<times> int \<times> string"

definition ident_of :: "row \<Rightarrow> ident" where
  "ident_of r = (ip r, port r, proto r)"

section \<open>The time package, at the layout \<^verbatim>\<open>2006-01-02 15:04\<close>\<close>

text \<open>
  A \<^verbatim>\<open>time.Time\<close> is used by the program only through \<^verbatim>\<open>Format\<close> and \<^verbatim>\<open>Parse\<close> with the
  layout \<^verbatim>\<open>2006-01-02 15:04\<close>, \<^verbatim>\<open>Equal\<close> and \<^verbatim>\<open>After\<close>. At that resolution a time is its
  civil reading (year, month, day, hour, minute); parsed times are all in UTC, where the
  chronological order is the lexicographic order of the reading.
\<close>

type_synonym time = "nat \<times> nat \<times> nat \<times> nat \<times> nat"

text \<open>The zero value \<^verbatim>\<open>time.Time{}\<close>: January 1, year 1, 00:00 UTC.\<close>

definition zero_time :: time where
  "zero_time = (1, 1, 1, 0, 0)"

definition isDigit :: "char \<Rightarrow> bool" where
  "isDigit c = (48 \<le> (of_char c :: nat) \<and> (of_char c :: nat) \<le> 57)"

definition digit_val :: "char \<Rightarrow> nat" where
  "digit_val c = of_char c - 48"

definition digit_char :: "nat \<Rightarrow> char" where
  "digit_char d = char_of (48 + d)"

text \<open>\<^verbatim>\<open>getnum(s, fixed)\<close>: one or two leading digits; two are required when \<open>fixed\<close>.\<close>

fun getnum :: "string \<Rightarrow> bool \<Rightarrow> (nat \<times> string) option" where
  "getnum [] fixed = None"
| "getnum [c] fixed =
     (if \<not> isDigit c then None else if fixed then None else Some (digit_val c, []))"
| "getnum (c # d # s) fixed =
     (if \<not> isDigit c then None
      else if \<not> isDigit d then (if fixed then None else Some (digit_val c, d # s))
      else Some (digit_val c * 10 + digit_val d, s))"

text \<open>
  \<^verbatim>\<open>skip(value, prefix)\<close>: the literal text of the layout between two fields. A space of
  the layout stands for any run of spaces of the value, an empty one at the end included.
\<close>

definition cutspace :: "string \<Rightarrow> string" where
  "cutspace s = dropWhile (\<lambda>c. c = CHR '' '') s"

function skip :: "string \<Rightarrow> string \<Rightarrow> string option" where
  "skip v [] = Some v"
| "skip v (p # pre) =
     (if p = CHR '' '' then
        (case v of
           [] \<Rightarrow> skip (cutspace v) (cutspace pre)
         | c # _ \<Rightarrow> if c \<noteq> CHR '' '' then None else skip (cutspace v) (cutspace pre))
      else
        (case v of
           [] \<Rightarrow> None
         | c # v' \<Rightarrow> if c \<noteq> p then None else skip v' pre))"
  by pat_completeness auto
termination
  by (relation "measure (\<lambda>(v, pre). length pre)")
     (auto simp: cutspace_def le_imp_less_Suc length_dropWhile_le)

text \<open>The four digits of \<^verbatim>\<open>2006\<close>.\<close>

fun getyear :: "string \<Rightarrow> (nat \<times> string) option" where
  "getyear (a # b # c # d # s) =
     (if isDigit a \<and> isDigit b \<and> isDigit c \<and> isDigit d
      then Some (digit_val a * 1000 + digit_val b * 100 + digit_val c * 10 + digit_val d, s)
      else None)"
| "getyear _ = None"

definition isLeap :: "nat \<Rightarrow> bool" where
  "isLeap year = (year mod 4 = 0 \<and> (year mod 100 \<noteq> 0 \<or> year mod 400 = 0))"

definition daysIn :: "nat \<Rightarrow> nat \<Rightarrow> nat" where
  "daysIn m year =
     (if m = 2 then (if isLeap year then 29 else 28)
      else if m = 4 \<or> m = 6 \<or> m = 9 \<or> m = 11 then 30 else 31)"

text \<open>
  \<^verbatim>\<open>time.Parse("2006-01-02 15:04", s)\<close>: \<open>None\<close> is the error return. The hour is read by
  \<^verbatim>\<open>getnum(value, false)\<close>, the other two-digit fields by \<^verbatim>\<open>getnum(value, true)\<close>; month,
  hour and minute are range checked as they are read, the day once all is read, and text
  left over is an error. The parsed time is in UTC.
\<close>

definition time_Parse :: "string \<Rightarrow> time option" where
  "time_Parse s =
     (case getyear s of None \<Rightarrow> None | Some (year, s1) \<Rightarrow>
      case skip s1 ''-'' of None \<Rightarrow> None | Some s2 \<Rightarrow>
      case getnum s2 True of None \<Rightarrow> None | Some (month, s3) \<Rightarrow>
      if month = 0 \<or> 12 < month then None else
      case skip s3 ''-'' of None \<Rightarrow> None | Some s4 \<Rightarrow>
      case getnum s4 True of None \<Rightarrow> None | Some (day, s5) \<Rightarrow>
      case skip s5 '' '' of None \<Rightarrow> None | Some s6 \<Rightarrow>
      case getnum s6 False of None \<Rightarrow> None | Some (hour, s7) \<Rightarrow>
      if 24 \<le> hour then None else
      case skip s7 '':'' of None \<Rightarrow> None | Some s8 \<Rightarrow>
      case getnum s8 True of None \<Rightarrow> None | Some (minute, s9) \<Rightarrow>
      if 60 \<le> minute then None else
      if s9 \<noteq> [] then None else
      if day < 1 \<or> daysIn month year < day then None
      else Some (year, month, day, hour, minute))"

text \<open>
  \<^verbatim>\<open>f, _ := time.Parse(layout, s)\<close>: the error is dropped, and on an error \<^verbatim>\<open>Parse\<close> returns
  the zero time.
\<close>

definition parse_ignoring_error :: "string \<Rightarrow> time" where
  "parse_ignoring_error s = (case time_Parse s of None \<Rightarrow> zero_time | Some t \<Rightarrow> t)"

text \<open>\<^verbatim>\<open>appendInt(b, x, width)\<close> for \<open>x \<ge> 0\<close>: decimal digits, zero padded to \<open>width\<close>.\<close>

fun decimal :: "nat \<Rightarrow> string" where
  "decimal n = (if n < 10 then [digit_char n] else decimal (n div 10) @ [digit_char (n mod 10)])"

declare decimal.simps [simp del]

definition appendInt :: "nat \<Rightarrow> nat \<Rightarrow> string" where
  "appendInt x width = replicate (width - length (decimal x)) (CHR ''0'') @ decimal x"

text \<open>\<^verbatim>\<open>t.Format("2006-01-02 15:04")\<close> of the wall-clock reading \<open>t\<close>.\<close>

definition time_Format :: "time \<Rightarrow> string" where
  "time_Format t =
     (case t of (year, month, day, hour, minute) \<Rightarrow>
        appendInt year 4 @ ''-'' @ appendInt month 2 @ ''-'' @ appendInt day 2 @ '' '' @
        appendInt hour 2 @ '':'' @ appendInt minute 2)"

section \<open>The database\<close>

text \<open>
  The table \<^verbatim>\<open>scan\<close> is a list of rows. Its \<^verbatim>\<open>CREATE TABLE\<close> statement is not in the
  source, so whether the schema declares \<open>(ip, port, proto)\<close> unique is a field of the
  store: under a unique key an \<^verbatim>\<open>INSERT\<close> of a tuple that the table already has fails.
\<close>

record store =
  unique_key :: bool
  rows :: "row list"

datatype error = ErrNoRows | ConstraintFailed | DriverError string

text \<open>
  What the outside gives to one request: the reading of \<^verbatim>\<open>time.Now()\<close> and, for every call
  into \<^verbatim>\<open>database/sql\<close> that returns an error value, whether the driver fails there
  (\<open>Some\<close> message) or not. The calls inside a loop are indexed by the iteration.
\<close>

record env =
  time_Now :: time
  open_err :: "string option"
  begin_err :: "string option"
  prepare_insert_err :: "string option"
  prepare_qry_err :: "string option"
  prepare_update_err :: "string option"
  queryrow_err :: "nat \<Rightarrow> string option"
  exec_err :: "nat \<Rightarrow> string option"
  commit_err :: "string option"
  query_err :: "string option"
  scan_err :: "nat \<Rightarrow> string option"

text \<open>An environment in which the driver never fails.\<close>

definition healthy :: "time \<Rightarrow> env" where
  "healthy now =
     \<lparr>time_Now = now, open_err = None, begin_err = None, prepare_insert_err = None,
      prepare_qry_err = None, prepare_update_err = None, queryrow_err = (\<lambda>_. None),
      exec_err = (\<lambda>_. None), commit_err = None, query_err = None, scan_err = (\<lambda>_. None)\<rparr>"

subsection \<open>\<^verbatim>\<open>LIKE\<close> and \<^verbatim>\<open>ORDER BY\<close>\<close>

text \<open>
  SQLite's \<^verbatim>\<open>LIKE\<close> without \<^verbatim>\<open>ESCAPE\<close>: \<^verbatim>\<open>%\<close> matches any run of characters, \<^verbatim>\<open>_\<close> any one
  character, every other character itself, upper and lower case ASCII letters alike. A
  \<open>char\<close> stands for one character, which is exact on ASCII text.
\<close>

definition ascii_lower :: "char \<Rightarrow> char" where
  "ascii_lower c =
     (if 65 \<le> (of_char c :: nat) \<and> (of_char c :: nat) \<le> 90 then char_of (of_char c + 32 :: nat) else c)"

fun like :: "string \<Rightarrow> string \<Rightarrow> bool" where
  "like [] [] = True"
| "like [] (c # s) = False"
| "like (p # ps) [] = (p = CHR ''%'' \<and> like ps [])"
| "like (p # ps) (c # s) =
     (if p = CHR ''%'' then like ps (c # s) \<or> like (p # ps) s
      else (p = CHR ''_'' \<or> ascii_lower p = ascii_lower c) \<and> like ps s)"

text \<open>
  \<^verbatim>\<open>ORDER BY port, proto, ip, lastseen\<close>: integers by value, text bytewise. SQLite leaves
  the order of rows with equal keys open; the model keeps them in table order.
\<close>

definition order_key :: "row \<Rightarrow> int \<times> string \<times> string \<times> string" where
  "order_key r = (port r, proto r, ip r, lastseen r)"

section \<open>\<^verbatim>\<open>load\<close>\<close>

text \<open>
  The body of the \<^verbatim>\<open>for rows.Next()\<close> loop once \<^verbatim>\<open>rows.Scan\<close> has succeeded: both
  timestamps are parsed and \<^verbatim>\<open>New\<close> is \<^verbatim>\<open>l.Equal(f)\<close>.
\<close>

definition scan_row :: "row \<Rightarrow> scandata" where
  "scan_row r =
     (let f = parse_ignoring_error (firstseen r);
          l = parse_ignoring_error (lastseen r)
      in \<lparr>IP = ip r, Port = port r, Proto = proto r,
          FirstSeen = firstseen r, LastSeen = lastseen r, New = (l = f)\<rparr>)"

text \<open>The loop; \<open>i\<close> counts the rows scanned so far.\<close>

fun load_rows :: "env \<Rightarrow> nat \<Rightarrow> row list \<Rightarrow> scandata list \<Rightarrow> scandata list \<times> error option" where
  "load_rows e i [] data = (data, None)"
| "load_rows e i (r # rs) data =
     (case scan_err e i of
        Some m \<Rightarrow> ([], Some (DriverError m))
      | None \<Rightarrow> load_rows e (Suc i) rs (data @ [scan_row r]))"

text \<open>The rows the \<^verbatim>\<open>SELECT\<close> of \<^verbatim>\<open>load\<close> yields, in the order it yields them.\<close>

definition select_rows :: "store \<Rightarrow> string \<Rightarrow> row list" where
  "select_rows db s =
     sort_key order_key
       (if s \<noteq> [] then filter (\<lambda>r. like (''%'' @ s @ ''%'') (ip r)) (rows db) else rows db)"

text \<open>
  \<^verbatim>\<open>load(s)\<close> returns the data and the error (\<open>None\<close> is \<^verbatim>\<open>nil\<close>), and the store as the request
  leaves it.
\<close>

definition load :: "env \<Rightarrow> store \<Rightarrow> string \<Rightarrow> (scandata list \<times> error option) \<times> store" where
  "load e db s =
     (case open_err e of
        Some m \<Rightarrow> (([], Some (DriverError m)), db)
      | None \<Rightarrow>
          (case query_err e of
             Some m \<Rightarrow> (([], Some (DriverError m)), db)
           | None \<Rightarrow> (load_rows e 0 (select_rows db s) [], db)))"

section \<open>\<^verbatim>\<open>save\<close>\<close>

text \<open>
  \<^verbatim>\<open>insert\<close> and \<^verbatim>\<open>update\<close> are prepared on \<^verbatim>\<open>txn\<close>, \<^verbatim>\<open>qry\<close> is prepared on \<^verbatim>\<open>db\<close>. A statement
  of \<^verbatim>\<open>db\<close> runs on a connection of the pool, not on the one the transaction holds, and a
  connection does not see what another one has not committed: the lookup reads the
  committed table, the two writes work on the transaction's table.
\<close>

definition qry_QueryRow :: "env \<Rightarrow> nat \<Rightarrow> row list \<Rightarrow> ident \<Rightarrow> error option" where
  "qry_QueryRow e i committed k =
     (case queryrow_err e i of
        Some m \<Rightarrow> Some (DriverError m)
      | None \<Rightarrow> if k \<in> ident_of ` set committed then None else Some ErrNoRows)"

definition insert_Exec :: "env \<Rightarrow> nat \<Rightarrow> bool \<Rightarrow> row list \<Rightarrow> row \<Rightarrow> error + row list" where
  "insert_Exec e i uniq txn r =
     (case exec_err e i of
        Some m \<Rightarrow> Inl (DriverError m)
      | None \<Rightarrow>
          if uniq \<and> ident_of r \<in> ident_of ` set txn then Inl ConstraintFailed
          else Inr (txn @ [r]))"

definition set_lastseen :: "string \<Rightarrow> ident \<Rightarrow> row \<Rightarrow> row" where
  "set_lastseen nowString k r = (if ident_of r = k then r\<lparr>lastseen := nowString\<rparr> else r)"

definition update_Exec :: "env \<Rightarrow> nat \<Rightarrow> row list \<Rightarrow> string \<Rightarrow> ident \<Rightarrow> error + row list" where
  "update_Exec e i txn nowString k =
     (case exec_err e i of
        Some m \<Rightarrow> Inl (DriverError m)
      | None \<Rightarrow> Inr (map (set_lastseen nowString k) txn))"

text \<open>
  How the \<^verbatim>\<open>for _, r := range results\<close> loop ends: it runs through, with the transaction's
  table; it rolls back and returns an error; or \<^verbatim>\<open>r.Ports[0]\<close> panics on an empty slice.
\<close>

datatype loop_exit = Completed "row list" | Failed error | IndexOutOfRange

fun save_loop ::
  "env \<Rightarrow> string \<Rightarrow> bool \<Rightarrow> row list \<Rightarrow> nat \<Rightarrow> row list \<Rightarrow> result list \<Rightarrow> loop_exit" where
  "save_loop e nowString uniq committed i txn [] = Completed txn"
| "save_loop e nowString uniq committed i txn (r # rs) =
     (case Ports r of
        [] \<Rightarrow> IndexOutOfRange
      | p # _ \<Rightarrow>
          (case qry_QueryRow e i committed (result.IP r, port.Port p, port.Proto p) of
             Some ErrNoRows \<Rightarrow>
               (case insert_Exec e i uniq txn
                       \<lparr>ip = result.IP r, port = port.Port p, proto = port.Proto p,
                        firstseen = nowString, lastseen = nowString\<rparr> of
                  Inl err \<Rightarrow> Failed err
                | Inr txn' \<Rightarrow> save_loop e nowString uniq committed (Suc i) txn' rs)
           | Some err \<Rightarrow> Failed err
           | None \<Rightarrow>
               (case update_Exec e i txn nowString (result.IP r, port.Port p, port.Proto p) of
                  Inl err \<Rightarrow> Failed err
                | Inr txn' \<Rightarrow> save_loop e nowString uniq committed (Suc i) txn' rs)))"

text \<open>
  What \<^verbatim>\<open>save\<close> does to its caller: it returns an \<^verbatim>\<open>error\<close> (\<open>None\<close> is \<^verbatim>\<open>nil\<close>) or it panics.
\<close>

datatype outcome = Returned "error option" | Panicked

text \<open>
  \<^verbatim>\<open>save(results)\<close>, with the store it leaves. A transaction that is rolled back, or still
  open when the deferred \<^verbatim>\<open>db.Close()\<close> runs, leaves the table as it was. The result of
  \<^verbatim>\<open>txn.Commit()\<close> is dropped.
\<close>

definition save :: "env \<Rightarrow> store \<Rightarrow> result list \<Rightarrow> outcome \<times> store" where
  "save e db results =
     (case open_err e of Some m \<Rightarrow> (Returned (Some (DriverError m)), db) | None \<Rightarrow>
      case begin_err e of Some m \<Rightarrow> (Returned (Some (DriverError m)), db) | None \<Rightarrow>
      case prepare_insert_err e of Some m \<Rightarrow> (Returned (Some (DriverError m)), db) | None \<Rightarrow>
      case prepare_qry_err e of Some m \<Rightarrow> (Returned (Some (DriverError m)), db) | None \<Rightarrow>
      case prepare_update_err e of Some m \<Rightarrow> (Returned (Some (DriverError m)), db) | None \<Rightarrow>
      (let now = time_Now e;
           nowString = time_Format now
       in case save_loop e nowString (unique_key db) (rows db) 0 (rows db) results of
            IndexOutOfRange \<Rightarrow> (Panicked, db)
          | Failed err \<Rightarrow> (Returned (Some err), db)
          | Completed txn \<Rightarrow>
              (case commit_err e of
                 Some m \<Rightarrow> (Returned None, db)
               | None \<Rightarrow> (Returned None, db\<lparr>rows := txn\<rparr>))))"

section \<open>The handlers\<close>

record indexData =
  Total :: int
  Latest :: int
  Results :: "scandata list"

text \<open>The two loops of \<^verbatim>\<open>index\<close>: the latest \<^verbatim>\<open>LastSeen\<close>, from the zero time, and the count of the rows that have it.\<close>

fun find_latest :: "time \<Rightarrow> scandata list \<Rightarrow> time" where
  "find_latest latest [] = latest"
| "find_latest latest (r # rs) =
     (let last = parse_ignoring_error (LastSeen r)
      in find_latest (if latest < last then last else latest) rs)"

fun count_latest :: "time \<Rightarrow> int \<Rightarrow> scandata list \<Rightarrow> int" where
  "count_latest latest n [] = n"
| "count_latest latest n (r # rs) =
     (let last = parse_ignoring_error (LastSeen r)
      in count_latest latest (if last = latest then n + 1 else n) rs)"

text \<open>
  \<^verbatim>\<open>index\<close>, for the query parameter \<open>ip\<close>: the data it hands to the template. An error of
  \<^verbatim>\<open>load\<close> is written to the response and the handler goes on with the empty result.
\<close>

definition index :: "env \<Rightarrow> store \<Rightarrow> string \<Rightarrow> indexData" where
  "index e db q =
     (let results = fst (fst (load e db q));
          latest = find_latest zero_time results
      in \<lparr>Total = int (length results), Latest = count_latest latest 0 results,
          Results = results\<rparr>)"

text \<open>\<^verbatim>\<open>ips\<close>: the list it hands to the JSON encoder.\<close>

definition ips :: "env \<Rightarrow> store \<Rightarrow> string list" where
  "ips e db = map scandata.IP (fst (fst (load e db [])))"

section \<open>Notions the properties are stated with\<close>

text \<open>
  The identity tuple an entry of a batch stands for: its IP and the number and protocol of
  \<^verbatim>\<open>r.Ports[0]\<close>. It is read only for entries that have a port.
\<close>

definition first_port :: "result \<Rightarrow> port" where
  "first_port r = hd (Ports r)"

definition entry_ident :: "result \<Rightarrow> ident" where
  "entry_ident r = (result.IP r, port.Port (first_port r), port.Proto (first_port r))"

text \<open>The row the \<^verbatim>\<open>INSERT\<close> writes for a tuple, and what the \<^verbatim>\<open>UPDATE\<close>s of a batch do to a row.\<close>

definition new_row :: "string \<Rightarrow> ident \<Rightarrow> row" where
  "new_row nowString k =
     (case k of (a, n, p) \<Rightarrow>
        \<lparr>ip = a, port = n, proto = p, firstseen = nowString, lastseen = nowString\<rparr>)"

definition touch :: "string \<Rightarrow> ident set \<Rightarrow> row \<Rightarrow> row" where
  "touch nowString K r = (if ident_of r \<in> K then r\<lparr>lastseen := nowString\<rparr> else r)"

text \<open>One iteration of the loop of \<^verbatim>\<open>save\<close> in which no call fails, as a function on the transaction's table.\<close>

definition merge_entry :: "string \<Rightarrow> row list \<Rightarrow> ident \<Rightarrow> row list \<Rightarrow> row list" where
  "merge_entry nowString committed k txn =
     (if k \<in> ident_of ` set committed then map (set_lastseen nowString k) txn
      else txn @ [new_row nowString k])"

text \<open>The timestamp of a batch as \<^verbatim>\<open>load\<close> and \<^verbatim>\<open>index\<close> read it back from the table.\<close>

definition batch_time :: "env \<Rightarrow> time" where
  "batch_time e = parse_ignoring_error (time_Format (time_Now e))"

text \<open>The invariant of the data model: one record per identity tuple, first seen no later than last seen.\<close>

definition store_inv :: "store \<Rightarrow> bool" where
  "store_inv db =
     (distinct (map ident_of (rows db)) \<and>
      (\<forall>r \<in> set (rows db).
         parse_ignoring_error (firstseen r) \<le> parse_ignoring_error (lastseen r)))"

text \<open>A sequence of ingestion requests, each with its own environment, whatever they return.\<close>

fun ingest_all :: "store \<Rightarrow> (env \<times> result list) list \<Rightarrow> store" where
  "ingest_all db [] = db"
| "ingest_all db ((e, batch) # rest) = ingest_all (snd (save e db batch)) rest"

text \<open>
  The rule of the specification's section 4.2: a row is in the latest batch when its
  \<^verbatim>\<open>LastSeen\<close> is the maximum over the loaded rows.
\<close>

definition has_max_lastSeen :: "scandata list \<Rightarrow> scandata \<Rightarrow> bool" where
  "has_max_lastSeen results d =
     (\<forall>d' \<in> set results.
        parse_ignoring_error (LastSeen d') \<le> parse_ignoring_error (LastSeen d))"


section \<open>The scenarios of the specification\<close>

text \<open>
  The payload \<^verbatim>\<open>[{ip:"10.0.0.1", ports:[{port:22,proto:"tcp"}]}]\<close>, ingested into an empty
  store at \<open>T1\<close> and again at \<open>T2\<close>, five minutes later; a batch of three hosts, at \<open>T3\<close>; a
  driver that fails the second write of a request; a host with two open ports; an entry
  without ports.
\<close>

definition ssh :: port where
  "ssh = \<lparr>port.Port = 22, Proto = ''tcp'', Status = ''open'', Service = \<lparr>Name = [], Banner = []\<rparr>\<rparr>"

definition http :: port where
  "http = \<lparr>port.Port = 80, Proto = ''tcp'', Status = ''open'', Service = \<lparr>Name = [], Banner = []\<rparr>\<rparr>"

definition host :: "string \<Rightarrow> result" where
  "host a = \<lparr>result.IP = a, Ports = [ssh]\<rparr>"

definition payload :: "result list" where
  "payload = [host ''10.0.0.1'']"

definition three_hosts :: "result list" where
  "three_hosts = [host ''10.0.0.1'', host ''10.0.0.2'', host ''192.168.1.7'']"

definition no_ports :: result where
  "no_ports = \<lparr>result.IP = ''10.0.0.9'', Ports = []\<rparr>"

definition T1 :: time where
  "T1 = (2024, 1, 1, 10, 0)"

definition T2 :: time where
  "T2 = (2024, 1, 1, 10, 5)"

definition T3 :: time where
  "T3 = (2024, 1, 1, 10, 10)"

definition second_write_fails :: env where
  "second_write_fails =
     (healthy T3)\<lparr>exec_err := (\<lambda>i. if i = 1 then Some ''disk I/O error'' else None)\<rparr>"

text \<open>
  Modelled from the spec: the schema of the table, whose \<^verbatim>\<open>CREATE TABLE\<close> statement is not
  in the source. Section 6 has a single table keyed by \<open>(ip, port, proto)\<close>.
\<close>

definition empty_store :: store where
  "empty_store = \<lparr>unique_key = True, rows = []\<rparr>"

definition seen_once :: store where
  "seen_once = snd (save (healthy T1) empty_store payload)"

definition seen_twice :: store where
  "seen_twice = snd (save (healthy T2) seen_once payload)"

definition three_seen :: store where
  "three_seen = snd (save (healthy T3) seen_twice three_hosts)"

definition two_ports :: store where
  "two_ports =
     snd (save (healthy T1) empty_store [host ''10.0.0.1'', \<lparr>result.IP = ''10.0.0.1'', Ports = [http]\<rparr>])"

text \<open>Four requests in a row; the third one fails at its second write.\<close>

definition history :: "(env \<times> result list) list" where
  "history =
     [(healthy T1, payload), (healthy T2, payload), (second_write_fails, three_hosts),
      (healthy T3, three_hosts)]"

section \<open>Properties of \<^verbatim>\<open>load\<close>\<close>

lemma load_rows_set: "set (fst (load_rows e i rs data)) \<subseteq> set data \<union> scan_row ` set rs"
proof (induction rs arbitrary: i data)
  case Nil
  show ?case by simp
next
  case (Cons r rs)
  show ?case
  proof (cases "scan_err e i")
    case None
    with Cons [of "Suc i" "data @ [scan_row r]"] show ?thesis by auto
  next
    case (Some m)
    then show ?thesis by simp
  qed
qed

lemma load_set: "set (fst (fst (load e db s))) \<subseteq> scan_row ` set (rows db)"
  using load_rows_set [of e 0 "select_rows db s" "[]"]
  by (auto simp: load_def select_rows_def split: option.splits if_splits)

lemma load_rows_healthy: "load_rows (healthy now) i rs data = (data @ map scan_row rs, None)"
  by (induction rs arbitrary: i data) (simp_all add: healthy_def)

lemma load_healthy: "load (healthy now) db s = ((map scan_row (select_rows db s), None), db)"
proof -
  have "open_err (healthy now) = None" "query_err (healthy now) = None"
    by (simp_all add: healthy_def)
  then show ?thesis by (simp add: load_def load_rows_healthy)
qed

lemma scan_row_New:
  "New (scan_row r) =
     (parse_ignoring_error (LastSeen (scan_row r)) = parse_ignoring_error (FirstSeen (scan_row r)))"
  by (simp add: scan_row_def Let_def)

lemma seen_once_rows:
  "seen_once = \<lparr>unique_key = True, rows =
     [\<lparr>ip = ''10.0.0.1'', port = 22, proto = ''tcp'',
       firstseen = ''2024-01-01 10:00'', lastseen = ''2024-01-01 10:00''\<rparr>]\<rparr>"
  by code_simp

lemma seen_twice_rows:
  "seen_twice = \<lparr>unique_key = True, rows =
     [\<lparr>ip = ''10.0.0.1'', port = 22, proto = ''tcp'',
       firstseen = ''2024-01-01 10:00'', lastseen = ''2024-01-01 10:05''\<rparr>]\<rparr>"
  by code_simp

text \<open>
  C2. Every row that \<^verbatim>\<open>load\<close> returns, for any filter, any store and any behaviour of the
  driver, has \<^verbatim>\<open>New\<close> set exactly when its \<^verbatim>\<open>LastSeen\<close> and its \<^verbatim>\<open>FirstSeen\<close> parse to the same
  time.
\<close>

theorem load_New_iff_first_seen:
  "\<forall>d \<in> set (fst (fst (load e db s))).
     New d = (parse_ignoring_error (LastSeen d) = parse_ignoring_error (FirstSeen d))"
  using load_set [of e db s] scan_row_New by blast

theorem load_New_iff_first_seen_witness:
  "\<lparr>IP = ''10.0.0.1'', Port = 22, Proto = ''tcp'', FirstSeen = ''2024-01-01 10:00'',
     LastSeen = ''2024-01-01 10:05'', New = False\<rparr> \<in> set (fst (fst (load (healthy T2) seen_twice [])))
   \<and> parse_ignoring_error ''2024-01-01 10:05'' \<noteq> parse_ignoring_error ''2024-01-01 10:00''"
proof -
  let ?d = "\<lparr>IP = ''10.0.0.1'', Port = 22, Proto = ''tcp'', FirstSeen = ''2024-01-01 10:00'',
     LastSeen = ''2024-01-01 10:05'', New = False\<rparr>"
  have mem: "?d \<in> set (fst (fst (load (healthy T2) seen_twice [])))"
    unfolding seen_twice_rows by code_simp
  from load_New_iff_first_seen [of "healthy T2" seen_twice "[]"] mem
  have "New ?d = (parse_ignoring_error (LastSeen ?d) = parse_ignoring_error (FirstSeen ?d))"
    by blast
  with mem show ?thesis by simp
qed

section \<open>Properties of \<^verbatim>\<open>save\<close>\<close>

subsection \<open>The loop\<close>

lemma save_loop_Completed:
  "save_loop e ns uniq committed i txn results = Completed txn' \<Longrightarrow>
   (\<forall>r \<in> set results. Ports r \<noteq> []) \<and>
   txn' = fold (merge_entry ns committed) (map entry_ident results) txn"
proof (induction results arbitrary: i txn)
  case Nil
  then show ?case by simp
next
  case (Cons r rs)
  from Cons.prems obtain p ps where P: "Ports r = p # ps"
    by (cases "Ports r") auto
  let ?k = "(result.IP r, port.Port p, port.Proto p)"
  have K: "entry_ident r = ?k" by (simp add: entry_ident_def first_port_def P)
  show ?case
  proof (cases "qry_QueryRow e i committed ?k")
    case None
    then have in_c: "?k \<in> ident_of ` set committed"
      by (auto simp: qry_QueryRow_def split: option.splits if_splits)
    from Cons.prems None P obtain t where
      U: "update_Exec e i txn ns ?k = Inr t" and L: "save_loop e ns uniq committed (Suc i) t rs = Completed txn'"
      by (auto split: sum.splits)
    from U have t: "t = merge_entry ns committed ?k txn"
      using in_c by (auto simp: update_Exec_def merge_entry_def split: option.splits)
    from Cons.IH [OF L] P K t show ?thesis by simp
  next
    case (Some err)
    with Cons.prems P have E: "err = ErrNoRows" by (cases err) auto
    with Some have not_c: "?k \<notin> ident_of ` set committed"
      by (auto simp: qry_QueryRow_def split: option.splits if_splits)
    from Cons.prems Some E P obtain t where
      U: "insert_Exec e i uniq txn (new_row ns ?k) = Inr t" and L: "save_loop e ns uniq committed (Suc i) t rs = Completed txn'"
      by (auto simp: new_row_def split: sum.splits)
    from U have t: "t = merge_entry ns committed ?k txn"
      using not_c by (auto simp: insert_Exec_def merge_entry_def split: option.splits if_splits)
    from Cons.IH [OF L] P K t show ?thesis by simp
  qed
qed

lemma ident_of_set_lastseen [simp]: "ident_of (set_lastseen ns k r) = ident_of r"
  by (simp add: set_lastseen_def ident_of_def)

lemma ident_of_new_row [simp]: "ident_of (new_row ns k) = k"
  by (cases k) (simp add: new_row_def ident_of_def)

lemma ident_of_touch [simp]: "ident_of (touch ns K r) = ident_of r"
  by (simp add: touch_def ident_of_def)

lemma touch_set_lastseen: "touch ns K (set_lastseen ns k r) = touch ns (insert k K) r"
  by (simp add: touch_def set_lastseen_def ident_of_def)

lemma touch_new_row: "touch ns K (new_row ns k) = new_row ns k"
  by (cases k) (simp add: touch_def new_row_def)

lemma fold_merge_entry:
  "fold (merge_entry ns committed) ks txn =
     map (touch ns (set ks \<inter> ident_of ` set committed)) txn @
     map (new_row ns) (filter (\<lambda>k. k \<notin> ident_of ` set committed) ks)"
proof (induction ks arbitrary: txn)
  case Nil
  show ?case by (simp add: touch_def)
next
  case (Cons k ks)
  show ?case
  proof (cases "k \<in> ident_of ` set committed")
    case True
    then have step: "merge_entry ns committed k txn = map (set_lastseen ns k) txn"
      by (simp add: merge_entry_def)
    have K: "insert k (set ks \<inter> ident_of ` set committed) = set (k # ks) \<inter> ident_of ` set committed"
      using True by auto
    have "fold (merge_entry ns committed) (k # ks) txn =
            fold (merge_entry ns committed) ks (map (set_lastseen ns k) txn)"
      by (simp add: step)
    also have "\<dots> = map (touch ns (set ks \<inter> ident_of ` set committed)) (map (set_lastseen ns k) txn) @
                     map (new_row ns) (filter (\<lambda>k. k \<notin> ident_of ` set committed) ks)"
      by (rule Cons.IH)
    also have "map (touch ns (set ks \<inter> ident_of ` set committed)) (map (set_lastseen ns k) txn) =
                 map (touch ns (set (k # ks) \<inter> ident_of ` set committed)) txn"
      by (simp add: touch_set_lastseen o_def K del: set_simps)
    finally show ?thesis using True by simp
  next
    case False
    then have step: "merge_entry ns committed k txn = txn @ [new_row ns k]"
      by (simp add: merge_entry_def)
    have K: "set ks \<inter> ident_of ` set committed = set (k # ks) \<inter> ident_of ` set committed"
      using False by auto
    have "fold (merge_entry ns committed) (k # ks) txn =
            fold (merge_entry ns committed) ks (txn @ [new_row ns k])"
      by (simp add: step)
    also have "\<dots> = map (touch ns (set ks \<inter> ident_of ` set committed)) (txn @ [new_row ns k]) @
                     map (new_row ns) (filter (\<lambda>k. k \<notin> ident_of ` set committed) ks)"
      by (rule Cons.IH)
    also have "map (touch ns (set ks \<inter> ident_of ` set committed)) (txn @ [new_row ns k]) =
                 map (touch ns (set (k # ks) \<inter> ident_of ` set committed)) txn @ [new_row ns k]"
      by (simp add: touch_new_row K del: set_simps)
    finally show ?thesis using False by simp
  qed
qed

lemma fold_merge_entry_committed:
  "fold (merge_entry ns committed) ks committed =
     map (touch ns (set ks)) committed @
     map (new_row ns) (filter (\<lambda>k. k \<notin> ident_of ` set committed) ks)"
proof -
  have "map (touch ns (set ks \<inter> ident_of ` set committed)) committed = map (touch ns (set ks)) committed"
    by (rule map_cong) (auto simp: touch_def)
  then show ?thesis by (simp add: fold_merge_entry)
qed

lemma save_loop_healthy:
  assumes "\<forall>r \<in> set results. Ports r \<noteq> []"
    and "uniq \<longrightarrow> distinct (filter (\<lambda>k. k \<notin> ident_of ` set committed) (map entry_ident results))
           \<and> set (filter (\<lambda>k. k \<notin> ident_of ` set committed) (map entry_ident results)) \<inter> ident_of ` set txn = {}"
  shows "save_loop (healthy now) ns uniq committed i txn results =
           Completed (fold (merge_entry ns committed) (map entry_ident results) txn)"
  using assms
proof (induction results arbitrary: i txn)
  case Nil
  show ?case by simp
next
  case (Cons r rs)
  from Cons.prems obtain p ps where P: "Ports r = p # ps"
    by (cases "Ports r") auto
  let ?k = "(result.IP r, port.Port p, port.Proto p)"
  have K: "entry_ident r = ?k" by (simp add: entry_ident_def first_port_def P)
  have H: "queryrow_err (healthy now) i = None" "exec_err (healthy now) i = None"
    by (simp_all add: healthy_def)
  show ?case
  proof (cases "?k \<in> ident_of ` set committed")
    case True
    have Q: "qry_QueryRow (healthy now) i committed ?k = None"
      using True H by (simp add: qry_QueryRow_def)
    have U: "update_Exec (healthy now) i txn ns ?k = Inr (merge_entry ns committed ?k txn)"
      using True H by (simp add: update_Exec_def merge_entry_def)
    have "save_loop (healthy now) ns uniq committed (Suc i) (merge_entry ns committed ?k txn) rs =
            Completed (fold (merge_entry ns committed) (map entry_ident rs) (merge_entry ns committed ?k txn))"
    proof (rule Cons.IH)
      show "\<forall>r \<in> set rs. Ports r \<noteq> []" using Cons.prems by simp
      show "uniq \<longrightarrow> distinct (filter (\<lambda>k. k \<notin> ident_of ` set committed) (map entry_ident rs))
           \<and> set (filter (\<lambda>k. k \<notin> ident_of ` set committed) (map entry_ident rs)) \<inter>
               ident_of ` set (merge_entry ns committed ?k txn) = {}"
        using Cons.prems(2) True K by (simp add: merge_entry_def image_image)
    qed
    with Q U P K show ?thesis by simp
  next
    case False
    have Q: "qry_QueryRow (healthy now) i committed ?k = Some ErrNoRows"
      using False H by (simp add: qry_QueryRow_def)
    have notin: "uniq \<longrightarrow> ?k \<notin> ident_of ` set txn"
      using Cons.prems(2) False K by auto
    have U: "insert_Exec (healthy now) i uniq txn
               \<lparr>ip = result.IP r, port = port.Port p, proto = port.Proto p, firstseen = ns, lastseen = ns\<rparr>
             = Inr (merge_entry ns committed ?k txn)"
      using False H notin by (auto simp: insert_Exec_def merge_entry_def new_row_def ident_of_def)
    have "save_loop (healthy now) ns uniq committed (Suc i) (merge_entry ns committed ?k txn) rs =
            Completed (fold (merge_entry ns committed) (map entry_ident rs) (merge_entry ns committed ?k txn))"
    proof (rule Cons.IH)
      show "\<forall>r \<in> set rs. Ports r \<noteq> []" using Cons.prems by simp
      show "uniq \<longrightarrow> distinct (filter (\<lambda>k. k \<notin> ident_of ` set committed) (map entry_ident rs))
           \<and> set (filter (\<lambda>k. k \<notin> ident_of ` set committed) (map entry_ident rs)) \<inter>
               ident_of ` set (merge_entry ns committed ?k txn) = {}"
        using Cons.prems(2) False K by (auto simp: merge_entry_def)
    qed
    with Q U P K show ?thesis by simp
  qed
qed

lemma save_loop_no_panic:
  "\<forall>r \<in> set results. Ports r \<noteq> [] \<Longrightarrow> save_loop e ns uniq committed i txn results \<noteq> IndexOutOfRange"
  by (induction results arbitrary: i txn)
     (auto split: list.splits option.splits error.splits sum.splits)

lemma save_loop_fault:
  "j < length results \<Longrightarrow> queryrow_err e (i + j) \<noteq> None \<or> exec_err e (i + j) \<noteq> None \<Longrightarrow>
   save_loop e ns uniq committed i txn results \<noteq> Completed txn'"
proof (induction results arbitrary: i j txn)
  case Nil
  then show ?case by simp
next
  case (Cons r rs)
  show ?case
  proof (cases j)
    case 0
    with Cons.prems show ?thesis
      by (auto simp: qry_QueryRow_def insert_Exec_def update_Exec_def
               split: list.splits option.splits error.splits sum.splits if_splits)
  next
    case (Suc j')
    with Cons.prems have "j' < length rs"
      and "queryrow_err e (Suc i + j') \<noteq> None \<or> exec_err e (Suc i + j') \<noteq> None"
      by simp_all
    then have "\<And>t. save_loop e ns uniq committed (Suc i) t rs \<noteq> Completed txn'"
      by (rule Cons.IH)
    then show ?thesis
      by (auto split: list.splits option.splits error.splits sum.splits)
  qed
qed

subsection \<open>The whole call\<close>

lemma save_cases:
  "snd (save e db results) = db \<or>
   (fst (save e db results) = Returned None \<and> commit_err e = None \<and>
    save_loop e (time_Format (time_Now e)) (unique_key db) (rows db) 0 (rows db) results =
      Completed (rows (snd (save e db results))) \<and>
    snd (save e db results) = db\<lparr>rows := rows (snd (save e db results))\<rparr>)"
  by (auto simp: save_def Let_def split: option.splits loop_exit.splits)

lemma save_failed_unchanged:
  "fst (save e db results) \<noteq> Returned None \<Longrightarrow> snd (save e db results) = db"
  using save_cases [of e db results] by auto

lemma save_Returned_None:
  "fst (save e db results) = Returned None \<Longrightarrow>
   \<exists>txn. save_loop e (time_Format (time_Now e)) (unique_key db) (rows db) 0 (rows db) results = Completed txn"
  by (auto simp: save_def Let_def split: option.splits loop_exit.splits)

lemma save_not_panicked:
  "\<forall>r \<in> set results. Ports r \<noteq> [] \<Longrightarrow> fst (save e db results) \<noteq> Panicked"
  using save_loop_no_panic [of results e "time_Format (time_Now e)" "unique_key db" "rows db" 0 "rows db"]
  by (auto simp: save_def Let_def split: option.splits loop_exit.splits)

lemma save_healthy:
  assumes "\<forall>r \<in> set results. Ports r \<noteq> []"
    and "unique_key db \<longrightarrow>
           distinct (filter (\<lambda>k. k \<notin> ident_of ` set (rows db)) (map entry_ident results))"
  shows "save (healthy now) db results =
           (Returned None,
            db\<lparr>rows := map (touch (time_Format now) (entry_ident ` set results)) (rows db) @
                       map (new_row (time_Format now))
                         (filter (\<lambda>k. k \<notin> ident_of ` set (rows db)) (map entry_ident results))\<rparr>)"
proof -
  have "save_loop (healthy now) (time_Format now) (unique_key db) (rows db) 0 (rows db) results =
          Completed (fold (merge_entry (time_Format now) (rows db)) (map entry_ident results) (rows db))"
    using assms by (intro save_loop_healthy) auto
  moreover have "open_err (healthy now) = None" "begin_err (healthy now) = None"
    "prepare_insert_err (healthy now) = None" "prepare_qry_err (healthy now) = None"
    "prepare_update_err (healthy now) = None" "commit_err (healthy now) = None"
    "time_Now (healthy now) = now"
    by (simp_all add: healthy_def)
  ultimately show ?thesis
    by (simp add: save_def fold_merge_entry_committed)
qed

lemma save_committed_rows:
  assumes "fst (save e db results) = Returned None" and "commit_err e = None"
  shows "rows (snd (save e db results)) =
           map (touch (time_Format (time_Now e)) (entry_ident ` set results)) (rows db) @
           map (new_row (time_Format (time_Now e)))
             (filter (\<lambda>k. k \<notin> ident_of ` set (rows db)) (map entry_ident results))"
proof -
  from save_Returned_None [OF assms(1)] obtain txn where
    L: "save_loop e (time_Format (time_Now e)) (unique_key db) (rows db) 0 (rows db) results = Completed txn"
    by blast
  with assms have "rows (snd (save e db results)) = txn"
    by (auto simp: save_def Let_def split: option.splits)
  with save_loop_Completed [OF L] show ?thesis
    by (simp add: fold_merge_entry_committed)
qed


lemma save_loop_healthy_panic:
  "(save_loop (healthy now) ns False committed i txn results = IndexOutOfRange) =
     (\<exists>r \<in> set results. Ports r = [])"
proof (induction results arbitrary: i txn)
  case Nil
  show ?case by simp
next
  case (Cons r rs)
  have H: "queryrow_err (healthy now) i = None" "exec_err (healthy now) i = None"
    by (simp_all add: healthy_def)
  show ?case
    by (cases "Ports r")
       (auto simp: Cons.IH qry_QueryRow_def insert_Exec_def update_Exec_def H)
qed

lemma save_healthy_panic:
  "\<not> unique_key db \<Longrightarrow>
   (fst (save (healthy now) db results) = Panicked) = (\<exists>r \<in> set results. Ports r = [])"
proof -
  assume U: "\<not> unique_key db"
  have H: "open_err (healthy now) = None" "begin_err (healthy now) = None"
    "prepare_insert_err (healthy now) = None" "prepare_qry_err (healthy now) = None"
    "prepare_update_err (healthy now) = None" "commit_err (healthy now) = None"
    by (simp_all add: healthy_def)
  have "(fst (save (healthy now) db results) = Panicked) =
        (save_loop (healthy now) (time_Format (time_Now (healthy now))) False (rows db) 0 (rows db) results = IndexOutOfRange)"
    using U by (simp add: save_def H Let_def split: loop_exit.splits)
  then show ?thesis by (simp add: save_loop_healthy_panic)
qed

lemma save_first_without_ports:
  "Ports r = [] \<Longrightarrow> save (healthy now) db (r # rest) = (Panicked, db)"
proof -
  assume "Ports r = []"
  moreover have "open_err (healthy now) = None" "begin_err (healthy now) = None"
    "prepare_insert_err (healthy now) = None" "prepare_qry_err (healthy now) = None"
    "prepare_update_err (healthy now) = None"
    by (simp_all add: healthy_def)
  ultimately show ?thesis by (simp add: save_def)
qed

lemma three_seen_rows:
  "three_seen = \<lparr>unique_key = True, rows =
     [\<lparr>ip = ''10.0.0.1'', port = 22, proto = ''tcp'',
       firstseen = ''2024-01-01 10:00'', lastseen = ''2024-01-01 10:10''\<rparr>,
      \<lparr>ip = ''10.0.0.2'', port = 22, proto = ''tcp'',
       firstseen = ''2024-01-01 10:10'', lastseen = ''2024-01-01 10:10''\<rparr>,
      \<lparr>ip = ''192.168.1.7'', port = 22, proto = ''tcp'',
       firstseen = ''2024-01-01 10:10'', lastseen = ''2024-01-01 10:10''\<rparr>]\<rparr>"
  unfolding three_seen_def seen_twice_rows by code_simp

lemma nth_touched:
  "j < length xs \<Longrightarrow> (map (touch ns K) xs @ ys) ! j = touch ns K (xs ! j)"
  by (simp add: nth_append)

subsection \<open>Rollback\<close>

text \<open>
  C3. Ingestion is all or nothing. Whenever \<^verbatim>\<open>save\<close> does not return \<^verbatim>\<open>nil\<close>, the store is
  exactly as before. When the lookup or the write of any entry \<open>j\<close> of the batch fails,
  \<^verbatim>\<open>save\<close> does not return \<^verbatim>\<open>nil\<close> and the store is as before, and it returns an error
  when every entry has a port. In every case the store is either as before or holds the
  effect of every entry of the batch.
\<close>

theorem save_all_or_nothing:
  "(fst (save e db results) \<noteq> Returned None \<longrightarrow> snd (save e db results) = db) \<and>
   (j < length results \<and> (queryrow_err e j \<noteq> None \<or> exec_err e j \<noteq> None) \<longrightarrow>
      snd (save e db results) = db \<and> fst (save e db results) \<noteq> Returned None \<and>
      ((\<forall>r \<in> set results. Ports r \<noteq> []) \<longrightarrow> (\<exists>err. fst (save e db results) = Returned (Some err)))) \<and>
   (snd (save e db results) = db \<or>
    rows (snd (save e db results)) =
      fold (merge_entry (time_Format (time_Now e)) (rows db)) (map entry_ident results) (rows db))"
proof (intro conjI impI)
  assume "fst (save e db results) \<noteq> Returned None"
  then show "snd (save e db results) = db" by (rule save_failed_unchanged)
next
  assume A: "j < length results \<and> (queryrow_err e j \<noteq> None \<or> exec_err e j \<noteq> None)"
  then have "\<And>txn. save_loop e (time_Format (time_Now e)) (unique_key db) (rows db) 0 (rows db) results \<noteq> Completed txn"
    using save_loop_fault [of j results e 0] by simp
  then show F: "fst (save e db results) \<noteq> Returned None"
    using save_Returned_None [of e db results] by blast
  then show "snd (save e db results) = db" by (rule save_failed_unchanged)
  assume "\<forall>r \<in> set results. Ports r \<noteq> []"
  then have "fst (save e db results) \<noteq> Panicked" by (rule save_not_panicked)
  with F show "\<exists>err. fst (save e db results) = Returned (Some err)"
    by (cases "fst (save e db results)") auto
next
  from save_cases [of e db results]
  show "snd (save e db results) = db \<or>
    rows (snd (save e db results)) =
      fold (merge_entry (time_Format (time_Now e)) (rows db)) (map entry_ident results) (rows db)"
    using save_loop_Completed by blast
qed

theorem save_all_or_nothing_witness:
  "(1::nat) < length three_hosts \<and> exec_err second_write_fails 1 \<noteq> None \<and>
   save second_write_fails seen_twice three_hosts =
     (Returned (Some (DriverError ''disk I/O error'')), seen_twice)"
proof -
  have a: "(1::nat) < length three_hosts" by (simp add: three_hosts_def)
  have b: "exec_err second_write_fails 1 \<noteq> None" by (simp add: second_write_fails_def)
  have c: "fst (save second_write_fails seen_twice three_hosts) = Returned (Some (DriverError ''disk I/O error''))"
    unfolding seen_twice_rows by code_simp
  from save_all_or_nothing [of second_write_fails seen_twice three_hosts 1] a b
  have "snd (save second_write_fails seen_twice three_hosts) = seen_twice" by blast
  with a b c show ?thesis by (simp add: prod_eq_iff)
qed

subsection \<open>What a batch writes\<close>

text \<open>
  C4. When \<^verbatim>\<open>save\<close> has committed, every record that was stored before is at its place
  with its IP, port, protocol and \<^verbatim>\<open>firstseen\<close> as they were, and its \<^verbatim>\<open>lastseen\<close> is the
  batch's timestamp when its tuple is in the batch and as it was otherwise. Ingesting one
  tuple that has a stored record succeeds, when the driver does not fail, and changes
  nothing but the \<^verbatim>\<open>lastseen\<close> of the records of that tuple.
\<close>

theorem save_updates_only_lastseen:
  "(fst (save e db results) = Returned None \<and> commit_err e = None \<and> j < length (rows db) \<longrightarrow>
      j < length (rows (snd (save e db results))) \<and>
      ip (rows (snd (save e db results)) ! j) = ip (rows db ! j) \<and>
      port (rows (snd (save e db results)) ! j) = port (rows db ! j) \<and>
      proto (rows (snd (save e db results)) ! j) = proto (rows db ! j) \<and>
      firstseen (rows (snd (save e db results)) ! j) = firstseen (rows db ! j) \<and>
      lastseen (rows (snd (save e db results)) ! j) =
        (if ident_of (rows db ! j) \<in> entry_ident ` set results then time_Format (time_Now e)
         else lastseen (rows db ! j))) \<and>
   (Ports r \<noteq> [] \<and> entry_ident r \<in> ident_of ` set (rows db) \<longrightarrow>
      save (healthy now) db [r] =
        (Returned None, db\<lparr>rows := map (touch (time_Format now) {entry_ident r}) (rows db)\<rparr>))"
proof (intro conjI impI)
  assume A: "fst (save e db results) = Returned None \<and> commit_err e = None \<and> j < length (rows db)"
  let ?R = "rows (snd (save e db results))"
  from A have R: "?R =
        map (touch (time_Format (time_Now e)) (entry_ident ` set results)) (rows db) @
        map (new_row (time_Format (time_Now e)))
          (filter (\<lambda>k. k \<notin> ident_of ` set (rows db)) (map entry_ident results))"
    by (intro save_committed_rows) simp_all
  from A have j: "?R ! j = touch (time_Format (time_Now e)) (entry_ident ` set results) (rows db ! j)"
    unfolding R by (intro nth_touched) simp
  show "j < length ?R" using A unfolding R by simp
  show "ip (?R ! j) = ip (rows db ! j)" unfolding j by (simp add: touch_def)
  show "port (?R ! j) = port (rows db ! j)" unfolding j by (simp add: touch_def)
  show "proto (?R ! j) = proto (rows db ! j)" unfolding j by (simp add: touch_def)
  show "firstseen (?R ! j) = firstseen (rows db ! j)" unfolding j by (simp add: touch_def)
  show "lastseen (?R ! j) =
        (if ident_of (rows db ! j) \<in> entry_ident ` set results then time_Format (time_Now e)
         else lastseen (rows db ! j))"
    unfolding j by (simp add: touch_def)
next
  assume "Ports r \<noteq> [] \<and> entry_ident r \<in> ident_of ` set (rows db)"
  then show "save (healthy now) db [r] =
        (Returned None, db\<lparr>rows := map (touch (time_Format now) {entry_ident r}) (rows db)\<rparr>)"
    using save_healthy [of "[r]" db now] by simp
qed

theorem save_updates_only_lastseen_witness:
  "Ports (host ''10.0.0.1'') \<noteq> [] \<and> entry_ident (host ''10.0.0.1'') \<in> ident_of ` set (rows seen_once) \<and>
   rows seen_once =
     [\<lparr>ip = ''10.0.0.1'', port = 22, proto = ''tcp'',
       firstseen = ''2024-01-01 10:00'', lastseen = ''2024-01-01 10:00''\<rparr>] \<and>
   save (healthy T2) seen_once [host ''10.0.0.1''] =
     (Returned None, \<lparr>unique_key = True, rows =
       [\<lparr>ip = ''10.0.0.1'', port = 22, proto = ''tcp'',
         firstseen = ''2024-01-01 10:00'', lastseen = ''2024-01-01 10:05''\<rparr>]\<rparr>) \<and>
   commit_err (healthy T2) = None \<and> (0::nat) < length (rows seen_once) \<and>
   firstseen (rows (snd (save (healthy T2) seen_once [host ''10.0.0.1''])) ! 0) = firstseen (rows seen_once ! 0) \<and>
   lastseen (rows (snd (save (healthy T2) seen_once [host ''10.0.0.1''])) ! 0) = time_Format T2"
proof -
  note inst = save_updates_only_lastseen
    [where r = "host ''10.0.0.1''" and db = seen_once and now = T2 and e = "healthy T2"
       and results = "[host ''10.0.0.1'']" and j = 0]
  have a: "Ports (host ''10.0.0.1'') \<noteq> []" by (simp add: host_def)
  have b: "entry_ident (host ''10.0.0.1'') \<in> ident_of ` set (rows seen_once)"
    unfolding seen_once_rows by code_simp
  have c: "seen_once\<lparr>rows := map (touch (time_Format T2) {entry_ident (host ''10.0.0.1'')}) (rows seen_once)\<rparr> =
      \<lparr>unique_key = True, rows =
       [\<lparr>ip = ''10.0.0.1'', port = 22, proto = ''tcp'',
         firstseen = ''2024-01-01 10:00'', lastseen = ''2024-01-01 10:05''\<rparr>]\<rparr>"
    unfolding seen_once_rows by code_simp
  have d: "commit_err (healthy T2) = None" "time_Now (healthy T2) = T2" by (simp_all add: healthy_def)
  have e: "(0::nat) < length (rows seen_once)" by (simp add: seen_once_rows)
  have k: "ident_of (rows seen_once ! 0) = entry_ident (host ''10.0.0.1'')"
    unfolding seen_once_rows by code_simp
  from inst a b
  have s: "save (healthy T2) seen_once [host ''10.0.0.1''] =
        (Returned None, seen_once\<lparr>rows := map (touch (time_Format T2) {entry_ident (host ''10.0.0.1'')}) (rows seen_once)\<rparr>)"
    by blast
  then have f: "fst (save (healthy T2) seen_once [host ''10.0.0.1'']) = Returned None" by simp
  from inst f d e k
  have g: "firstseen (rows (snd (save (healthy T2) seen_once [host ''10.0.0.1''])) ! 0) = firstseen (rows seen_once ! 0)"
    and h: "lastseen (rows (snd (save (healthy T2) seen_once [host ''10.0.0.1''])) ! 0) = time_Format T2"
    by simp_all
  from a b s c d e g h show ?thesis by (simp add: seen_once_rows)
qed



subsection \<open>The unguarded index\<close>

text \<open>
  C10. \<^verbatim>\<open>r.Ports[0]\<close> has no guard. When every entry of the batch has a port, \<^verbatim>\<open>save\<close> does
  not panic, whatever the driver does. Without that it can: when the driver does not fail
  and the table has no unique key, \<^verbatim>\<open>save\<close> panics exactly when some entry has no port, and
  with any table it panics on a batch whose first entry has none.
\<close>

theorem save_Ports_unguarded:
  "((\<forall>r \<in> set results. Ports r \<noteq> []) \<longrightarrow> fst (save e db results) \<noteq> Panicked) \<and>
   (\<not> unique_key db \<longrightarrow>
      (fst (save (healthy now) db results) = Panicked) = (\<exists>r \<in> set results. Ports r = [])) \<and>
   (Ports r = [] \<longrightarrow> save (healthy now) db (r # rest) = (Panicked, db))"
  using save_not_panicked [of results e db] save_healthy_panic [of db now results]
    save_first_without_ports [of r now db rest]
  by blast

theorem save_Ports_unguarded_witness:
  "Ports no_ports = [] \<and> save (healthy T3) seen_twice (no_ports # three_hosts) = (Panicked, seen_twice) \<and>
   Ports (host ''10.0.0.1'') \<noteq> [] \<and> fst (save (healthy T3) seen_twice payload) \<noteq> Panicked"
proof -
  have a: "Ports no_ports = []" by (simp add: no_ports_def)
  have b: "\<forall>r \<in> set payload. Ports r \<noteq> []" by (simp add: payload_def host_def)
  from save_Ports_unguarded [of payload "healthy T3" seen_twice T3 no_ports three_hosts] a b
  show ?thesis by (simp add: host_def)
qed

subsection \<open>A batch that repeats a tuple\<close>

text \<open>
  The lookup reads the committed table, so it does not see what the same batch has
  inserted: a batch that names a new tuple twice stores it twice when the table has no
  unique key, and is rejected as a whole when it has one.
\<close>

lemma save_repeated_tuple:
  "save (healthy T1) \<lparr>unique_key = False, rows = []\<rparr> (payload @ payload) =
     (Returned None, \<lparr>unique_key = False, rows =
        [\<lparr>ip = ''10.0.0.1'', port = 22, proto = ''tcp'',
          firstseen = ''2024-01-01 10:00'', lastseen = ''2024-01-01 10:00''\<rparr>,
         \<lparr>ip = ''10.0.0.1'', port = 22, proto = ''tcp'',
          firstseen = ''2024-01-01 10:00'', lastseen = ''2024-01-01 10:00''\<rparr>]\<rparr>) \<and>
   save (healthy T1) empty_store (payload @ payload) = (Returned (Some ConstraintFailed), empty_store)"
  by code_simp

section \<open>The invariant of the store\<close>

lemma save_loop_distinct:
  "save_loop e ns True committed i txn results = Completed txn' \<Longrightarrow>
   distinct (map ident_of txn) \<Longrightarrow> distinct (map ident_of txn')"
proof (induction results arbitrary: i txn)
  case Nil
  then show ?case by simp
next
  case (Cons r rs)
  from Cons.prems(1) obtain p ps where P: "Ports r = p # ps"
    by (cases "Ports r") auto
  let ?k = "(result.IP r, port.Port p, port.Proto p)"
  from Cons.prems(1) P obtain t where
    L: "save_loop e ns True committed (Suc i) t rs = Completed txn'"
    and T: "update_Exec e i txn ns ?k = Inr t \<or>
            insert_Exec e i True txn \<lparr>ip = result.IP r, port = port.Port p, proto = port.Proto p,
              firstseen = ns, lastseen = ns\<rparr> = Inr t"
    by (auto split: option.splits error.splits sum.splits)
  from T Cons.prems(2) have "distinct (map ident_of t)"
    by (auto simp: update_Exec_def insert_Exec_def o_def ident_of_def [of "\<lparr>ip = _, port = _, proto = _, firstseen = _, lastseen = _\<rparr>"]
             split: option.splits if_splits)
  with L show ?case by (rule Cons.IH)
qed

lemma touch_times:
  assumes "parse_ignoring_error (firstseen r) \<le> parse_ignoring_error (lastseen r)"
    and "parse_ignoring_error (lastseen r) \<le> parse_ignoring_error ns"
  shows "parse_ignoring_error (firstseen (touch ns K r)) \<le> parse_ignoring_error (lastseen (touch ns K r))
       \<and> parse_ignoring_error (lastseen (touch ns K r)) \<le> parse_ignoring_error ns"
  using assms by (auto simp: touch_def)

lemma new_row_times:
  "firstseen (new_row ns k) = ns \<and> lastseen (new_row ns k) = ns"
  by (cases k) (simp add: new_row_def)

lemma save_inv_step:
  assumes U: "unique_key db"
    and D: "distinct (map ident_of (rows db))"
    and T: "\<forall>r \<in> set (rows db). parse_ignoring_error (firstseen r) \<le> parse_ignoring_error (lastseen r)
              \<and> parse_ignoring_error (lastseen r) \<le> batch_time e"
  shows "unique_key (snd (save e db results)) \<and>
         distinct (map ident_of (rows (snd (save e db results)))) \<and>
         (\<forall>r \<in> set (rows (snd (save e db results))).
            parse_ignoring_error (firstseen r) \<le> parse_ignoring_error (lastseen r)
            \<and> parse_ignoring_error (lastseen r) \<le> batch_time e)"
proof -
  let ?ns = "time_Format (time_Now e)"
  from save_cases [of e db results] show ?thesis
  proof
    assume "snd (save e db results) = db"
    with U D T show ?thesis by simp
  next
    assume A: "fst (save e db results) = Returned None \<and> commit_err e = None \<and>
      save_loop e ?ns (unique_key db) (rows db) 0 (rows db) results =
        Completed (rows (snd (save e db results))) \<and>
      snd (save e db results) = db\<lparr>rows := rows (snd (save e db results))\<rparr>"
    then have L: "save_loop e ?ns True (rows db) 0 (rows db) results = Completed (rows (snd (save e db results)))"
      using U by simp
    have 1: "unique_key (snd (save e db results))"
    proof -
      from A have "unique_key (snd (save e db results)) = unique_key (db\<lparr>rows := rows (snd (save e db results))\<rparr>)"
        by simp
      with U show ?thesis by simp
    qed
    have 2: "distinct (map ident_of (rows (snd (save e db results))))"
      using save_loop_distinct [OF L D] .
    have R: "rows (snd (save e db results)) =
           map (touch ?ns (entry_ident ` set results)) (rows db) @
           map (new_row ?ns) (filter (\<lambda>k. k \<notin> ident_of ` set (rows db)) (map entry_ident results))"
      using A by (intro save_committed_rows) simp_all
    have 3: "\<forall>r \<in> set (rows (snd (save e db results))).
            parse_ignoring_error (firstseen r) \<le> parse_ignoring_error (lastseen r)
            \<and> parse_ignoring_error (lastseen r) \<le> batch_time e"
    proof
      fix r assume "r \<in> set (rows (snd (save e db results)))"
      with R consider r0 where "r0 \<in> set (rows db)" "r = touch ?ns (entry_ident ` set results) r0"
        | k where "r = new_row ?ns k"
        by auto
      then show "parse_ignoring_error (firstseen r) \<le> parse_ignoring_error (lastseen r)
            \<and> parse_ignoring_error (lastseen r) \<le> batch_time e"
      proof cases
        case 1
        with T touch_times [of r0 ?ns] show ?thesis by (simp add: batch_time_def)
      next
        case 2
        then show ?thesis by (simp add: new_row_times batch_time_def)
      qed
    qed
    from 1 2 3 show ?thesis by blast
  qed
qed

lemma ingest_all_inv:
  assumes "unique_key db" and "store_inv db"
    and "\<forall>r \<in> set (rows db). \<forall>s \<in> set steps. parse_ignoring_error (lastseen r) \<le> batch_time (fst s)"
    and "sorted (map (\<lambda>s. batch_time (fst s)) steps)"
  shows "store_inv (ingest_all db steps)"
  using assms
proof (induction steps arbitrary: db)
  case Nil
  then show ?case by simp
next
  case (Cons s steps)
  obtain e batch where s: "s = (e, batch)" by (cases s)
  let ?db = "snd (save e db batch)"
  have step: "unique_key ?db \<and> distinct (map ident_of (rows ?db)) \<and>
         (\<forall>r \<in> set (rows ?db).
            parse_ignoring_error (firstseen r) \<le> parse_ignoring_error (lastseen r)
            \<and> parse_ignoring_error (lastseen r) \<le> batch_time e)"
    using Cons.prems s by (intro save_inv_step) (auto simp: store_inv_def)
  have later: "\<forall>s' \<in> set steps. batch_time e \<le> batch_time (fst s')"
    using Cons.prems(4) s by auto
  have "store_inv (ingest_all ?db steps)"
  proof (rule Cons.IH)
    show "unique_key ?db" using step by simp
    show "store_inv ?db" using step by (simp add: store_inv_def)
    show "\<forall>r \<in> set (rows ?db). \<forall>s \<in> set steps. parse_ignoring_error (lastseen r) \<le> batch_time (fst s)"
      using step later by (meson order_trans)
    show "sorted (map (\<lambda>s. batch_time (fst s)) steps)" using Cons.prems(4) by simp
  qed
  with s show ?case by simp
qed

text \<open>
  C6. From an empty table whose schema declares the identity tuple unique, after any
  sequence of ingestion requests whose batch timestamps do not decrease, the table holds
  at most one record per identity tuple and every record was first seen no later than
  last seen.
\<close>

theorem ingest_all_keeps_invariant:
  "unique_key db \<and> rows db = [] \<and> sorted (map (\<lambda>s. batch_time (fst s)) steps) \<longrightarrow>
     store_inv (ingest_all db steps)"
  using ingest_all_inv [of db steps] by (simp add: store_inv_def)

theorem ingest_all_keeps_invariant_witness:
  "unique_key empty_store \<and> rows empty_store = [] \<and>
   sorted (map (\<lambda>s. batch_time (fst s)) history) \<and>
   ingest_all empty_store history = three_seen \<and> store_inv three_seen"
proof -
  have a: "unique_key empty_store" "rows empty_store = []" by (simp_all add: empty_store_def)
  have b: "sorted (map (\<lambda>s. batch_time (fst s)) history)" by code_simp
  have c: "ingest_all empty_store history = three_seen"
    unfolding three_seen_rows by code_simp
  from ingest_all_keeps_invariant [of empty_store history] a b
  have "store_inv (ingest_all empty_store history)" by blast
  with a b c show ?thesis by simp
qed

section \<open>Properties of the query\<close>





lemma length_filter_sort_key: "length (filter P (sort_key f xs)) = length (filter P xs)"
  by (simp add: filter_sort)

lemma count_list_map: "count_list (map f xs) a = length (filter (\<lambda>x. f x = a) xs)"
  by (induction xs) simp_all






section \<open>Properties of the handlers\<close>

lemma Max_insert_max:
  fixes a :: "'a::linorder"
  assumes "finite S"
  shows "Max (insert (max a x) S) = Max (insert a (insert x S))"
proof (cases "S = {}")
  case True
  then show ?thesis by (simp add: max.commute)
next
  case False
  with assms show ?thesis by (simp add: max.assoc)
qed

lemma find_latest_Max: "find_latest latest rs = Max (insert latest ((\<lambda>d. parse_ignoring_error (LastSeen d)) ` set rs))"
proof (induction rs arbitrary: latest)
  case Nil show ?case by simp
next
  case (Cons r rs)
  have "(if latest < parse_ignoring_error (LastSeen r) then parse_ignoring_error (LastSeen r) else latest)
      = max latest (parse_ignoring_error (LastSeen r))"
    by (simp only: max_def not_less [symmetric] if_not_P if_P split: if_split) auto
  then show ?case
    using Cons [of "max latest (parse_ignoring_error (LastSeen r))"]
    by (simp add: Let_def Max_insert_max del: Max_insert)
qed

lemma count_latest_eq: "count_latest latest n rs = n + int (length (filter (\<lambda>d. parse_ignoring_error (LastSeen d) = latest) rs))"
  by (induction rs arbitrary: n) (simp_all add: Let_def)

lemma index_fields:
  "Results (index e db q) = fst (fst (load e db q)) \<and>
   Total (index e db q) = int (length (fst (fst (load e db q)))) \<and>
   Latest (index e db q) =
     int (length (filter (\<lambda>d. parse_ignoring_error (LastSeen d) =
        Max (insert zero_time ((\<lambda>d. parse_ignoring_error (LastSeen d)) ` set (fst (fst (load e db q))))))
        (fst (fst (load e db q)))))"
  by (simp add: index_def Let_def find_latest_Max count_latest_eq)

lemma latest_is_max:
  fixes f :: "'a \<Rightarrow> time"
  assumes "\<exists>d \<in> set R. zero_time \<le> f d" and "d \<in> set R"
  shows "(f d = Max (insert zero_time (f ` set R))) = (\<forall>d' \<in> set R. f d' \<le> f d)"
proof -
  from assms(1) obtain d0 where d0: "d0 \<in> set R" "zero_time \<le> f d0" by blast
  have fin: "finite (insert zero_time (f ` set R))" by simp
  show ?thesis
  proof
    assume "f d = Max (insert zero_time (f ` set R))"
    then have "\<forall>x \<in> insert zero_time (f ` set R). x \<le> f d"
      using Max_ge [OF fin] by metis
    then show "\<forall>d' \<in> set R. f d' \<le> f d" by simp
  next
    assume A: "\<forall>d' \<in> set R. f d' \<le> f d"
    then have "zero_time \<le> f d" using d0 by (meson order_trans)
    with A have "\<forall>x \<in> insert zero_time (f ` set R). x \<le> f d" by auto
    moreover have "f d \<in> insert zero_time (f ` set R)" using assms(2) by simp
    ultimately show "f d = Max (insert zero_time (f ` set R))"
      using fin by (metis Max_eqI)
  qed
qed

text \<open>
  C1, as amended. \<^verbatim>\<open>New\<close> of a returned row says that its \<^verbatim>\<open>LastSeen\<close> equals its
  \<^verbatim>\<open>FirstSeen\<close>. The rows whose \<^verbatim>\<open>LastSeen\<close> is the maximum over the loaded rows are what
  \<^verbatim>\<open>index\<close> counts in \<^verbatim>\<open>Latest\<close>, when some loaded row was last seen at or after the zero
  time.
\<close>

theorem index_counts_latest_batch:
  "Results (index e db q) = fst (fst (load e db q)) \<and>
   (\<forall>d \<in> set (Results (index e db q)).
      New d = (parse_ignoring_error (LastSeen d) = parse_ignoring_error (FirstSeen d))) \<and>
   ((\<exists>d \<in> set (Results (index e db q)). zero_time \<le> parse_ignoring_error (LastSeen d)) \<longrightarrow>
      Latest (index e db q) =
        int (length (filter (has_max_lastSeen (Results (index e db q))) (Results (index e db q)))))"
proof (intro conjI impI)
  let ?R = "fst (fst (load e db q))"
  show R: "Results (index e db q) = ?R" using index_fields by blast
  show "\<forall>d \<in> set (Results (index e db q)).
      New d = (parse_ignoring_error (LastSeen d) = parse_ignoring_error (FirstSeen d))"
    unfolding R using load_set [of e db q] scan_row_New by blast
  assume "\<exists>d \<in> set (Results (index e db q)). zero_time \<le> parse_ignoring_error (LastSeen d)"
  then have ex: "\<exists>d \<in> set ?R. zero_time \<le> parse_ignoring_error (LastSeen d)"
    unfolding R .
  have "filter (\<lambda>d. parse_ignoring_error (LastSeen d) =
        Max (insert zero_time ((\<lambda>d. parse_ignoring_error (LastSeen d)) ` set ?R))) ?R =
        filter (has_max_lastSeen ?R) ?R"
    by (rule filter_cong [OF refl]) (simp add: has_max_lastSeen_def latest_is_max [OF ex])
  then show "Latest (index e db q) =
        int (length (filter (has_max_lastSeen (Results (index e db q))) (Results (index e db q))))"
    unfolding R using index_fields [of e db q] by simp
qed

theorem index_counts_latest_batch_witness:
  "Results (index (healthy T2) seen_twice []) =
     [\<lparr>IP = ''10.0.0.1'', Port = 22, Proto = ''tcp'', FirstSeen = ''2024-01-01 10:00'',
       LastSeen = ''2024-01-01 10:05'', New = False\<rparr>] \<and>
   zero_time \<le> parse_ignoring_error ''2024-01-01 10:05'' \<and>
   parse_ignoring_error ''2024-01-01 10:05'' \<noteq> parse_ignoring_error ''2024-01-01 10:00'' \<and>
   Latest (index (healthy T2) seen_twice []) = 1"
proof -
  let ?d = "\<lparr>IP = ''10.0.0.1'', Port = 22, Proto = ''tcp'', FirstSeen = ''2024-01-01 10:00'',
       LastSeen = ''2024-01-01 10:05'', New = False\<rparr>"
  have a: "fst (fst (load (healthy T2) seen_twice [])) = [?d]"
    unfolding seen_twice_rows by code_simp
  have b: "zero_time \<le> parse_ignoring_error ''2024-01-01 10:05''" by code_simp
  have c: "has_max_lastSeen [?d] ?d" by (simp add: has_max_lastSeen_def)
  note inst = index_counts_latest_batch [of "healthy T2" seen_twice "[]"]
  from inst a have r: "Results (index (healthy T2) seen_twice []) = [?d]" by simp
  from inst have "\<forall>d \<in> set (Results (index (healthy T2) seen_twice [])).
      New d = (parse_ignoring_error (LastSeen d) = parse_ignoring_error (FirstSeen d))"
    by blast
  then have n: "parse_ignoring_error ''2024-01-01 10:05'' \<noteq> parse_ignoring_error ''2024-01-01 10:00''"
    unfolding r by simp
  from b have "\<exists>d \<in> set (Results (index (healthy T2) seen_twice [])).
      zero_time \<le> parse_ignoring_error (LastSeen d)"
    unfolding r by simp
  with inst have "Latest (index (healthy T2) seen_twice []) =
        int (length (filter (has_max_lastSeen (Results (index (healthy T2) seen_twice [])))
          (Results (index (healthy T2) seen_twice []))))"
    by blast
  then have l: "Latest (index (healthy T2) seen_twice []) = 1"
    unfolding r using c by simp
  from r b n l show ?thesis by simp
qed

text \<open>
  C1, as stated, fails in its own scenario: after the second ingestion the one returned
  row has the maximal \<^verbatim>\<open>LastSeen\<close> and \<^verbatim>\<open>New\<close> is false.
\<close>

theorem isNew_latest_batch_counterexample:
  "fst (fst (load (healthy T2) seen_twice [])) =
     [\<lparr>IP = ''10.0.0.1'', Port = 22, Proto = ''tcp'', FirstSeen = ''2024-01-01 10:00'',
       LastSeen = ''2024-01-01 10:05'', New = False\<rparr>] \<and>
   has_max_lastSeen (fst (fst (load (healthy T2) seen_twice [])))
     \<lparr>IP = ''10.0.0.1'', Port = 22, Proto = ''tcp'', FirstSeen = ''2024-01-01 10:00'',
       LastSeen = ''2024-01-01 10:05'', New = False\<rparr>"
  unfolding seen_twice_rows by code_simp

text \<open>
  C8, as amended. When the driver does not fail, \<^verbatim>\<open>ips\<close> returns the IP of every stored
  record, unfiltered and in the order of the report query: an IP is listed as many times
  as it has records, and every stored IP is listed.
\<close>

theorem ips_one_entry_per_record:
  "ips (healthy now) db = map ip (sort_key order_key (rows db)) \<and>
   count_list (ips (healthy now) db) a = length (filter (\<lambda>r. ip r = a) (rows db)) \<and>
   set (ips (healthy now) db) = ip ` set (rows db)"
proof -
  have "ips (healthy now) db = map ip (sort_key order_key (rows db))"
    by (simp add: ips_def load_healthy select_rows_def scan_row_def Let_def o_def)
  then show ?thesis
    by (simp add: count_list_map length_filter_sort_key)
qed

theorem ips_one_entry_per_record_witness:
  "ips (healthy T3) three_seen = [''10.0.0.1'', ''10.0.0.2'', ''192.168.1.7''] \<and>
   count_list (ips (healthy T3) three_seen) ''10.0.0.2'' = 1"
proof -
  have "map ip (sort_key order_key (rows three_seen)) = [''10.0.0.1'', ''10.0.0.2'', ''192.168.1.7'']"
    unfolding three_seen_rows by code_simp
  moreover have "length (filter (\<lambda>r. ip r = ''10.0.0.2'') (rows three_seen)) = 1"
    unfolding three_seen_rows by code_simp
  ultimately show ?thesis
    using ips_one_entry_per_record [of T3 three_seen "''10.0.0.2''"] by simp
qed

text \<open>
  C8, as stated, fails: a host with two open ports has two records, and its IP is listed
  twice.
\<close>

theorem ips_repeats_counterexample:
  "map ip (rows two_ports) = [''10.0.0.1'', ''10.0.0.1''] \<and>
   ips (healthy T2) two_ports = [''10.0.0.1'', ''10.0.0.1''] \<and>
   count_list (ips (healthy T2) two_ports) ''10.0.0.1'' = 2"
  by code_simp

end
